theory Spec2Isabelle
  imports Complex_Main "HOL-Library.Product_Lexorder" "HOL-Library.Multiset"
begin

section \<open>Python values used by \<^verbatim>\<open>process_pdfs.py\<close>\<close>

text \<open>
  A Python \<^verbatim>\<open>str\<close> is a sequence of Unicode code points, and \<^verbatim>\<open>len\<close> counts code
  points; the pattern of the source contains the en dash U+2013, which is not a byte. So a
  text is a list of code points. Literals of the program are written as Isabelle strings
  and converted with \<open>ustr_of\<close>. Font sizes and coordinates are Python floats; they are
  modelled as reals (comparison and the mean are exact, there is no NaN).
\<close>

type_synonym ustr = "nat list"

definition ustr_of :: "string \<Rightarrow> ustr" where
  "ustr_of s = map of_char s"

text \<open>
  The parts of Python's Unicode database that depend on the interpreter's Unicode
  version are a parameter: the decimal digits beyond ASCII (category Nd), and
  \<^verbatim>\<open>str.lower\<close> and \<^verbatim>\<open>str.title\<close> on a text that has a code point beyond ASCII (both
  may change the length and depend on the context of a letter). On ASCII text the three
  are written out below and the parameter is not consulted.
\<close>

record unicode_db =
  nd_beyond_ascii :: "nat \<Rightarrow> bool"
  lower_beyond_ascii :: "ustr \<Rightarrow> ustr"
  title_beyond_ascii :: "ustr \<Rightarrow> ustr"

definition is_ascii :: "ustr \<Rightarrow> bool" where
  "is_ascii s = list_all (\<lambda>c. c < 128) s"

text \<open>\<^verbatim>\<open>str.isspace\<close> of one code point, which is also what \<^verbatim>\<open>strip()\<close> removes and
  what \<^verbatim>\<open>\s\<close> matches in a \<^verbatim>\<open>str\<close> pattern.\<close>

definition py_isspace :: "nat \<Rightarrow> bool" where
  "py_isspace c = ((9 \<le> c \<and> c \<le> 13) \<or> (28 \<le> c \<and> c \<le> 32) \<or> c = 133 \<or> c = 160
     \<or> c = 5760 \<or> (8192 \<le> c \<and> c \<le> 8202) \<or> c = 8232 \<or> c = 8233 \<or> c = 8239
     \<or> c = 8287 \<or> c = 12288)"

text \<open>\<^verbatim>\<open>\d\<close> in a \<^verbatim>\<open>str\<close> pattern: a Unicode decimal digit.\<close>

definition py_isdecimal :: "unicode_db \<Rightarrow> nat \<Rightarrow> bool" where
  "py_isdecimal U c = (if c < 128 then 48 \<le> c \<and> c \<le> 57 else nd_beyond_ascii U c)"

definition py_strip :: "ustr \<Rightarrow> ustr" where
  "py_strip s = rev (dropWhile py_isspace (rev (dropWhile py_isspace s)))"

definition ascii_lower :: "nat \<Rightarrow> nat" where
  "ascii_lower c = (if 65 \<le> c \<and> c \<le> 90 then c + 32 else c)"

definition ascii_upper :: "nat \<Rightarrow> nat" where
  "ascii_upper c = (if 97 \<le> c \<and> c \<le> 122 then c - 32 else c)"

definition ascii_cased :: "nat \<Rightarrow> bool" where
  "ascii_cased c = ((65 \<le> c \<and> c \<le> 90) \<or> (97 \<le> c \<and> c \<le> 122))"

definition py_lower :: "unicode_db \<Rightarrow> ustr \<Rightarrow> ustr" where
  "py_lower U s = (if is_ascii s then map ascii_lower s else lower_beyond_ascii U s)"

text \<open>\<^verbatim>\<open>str.title()\<close>: a cased character is upper-cased when the character before it is
  not cased, and lower-cased otherwise.\<close>

fun ascii_title :: "bool \<Rightarrow> ustr \<Rightarrow> ustr" where
  "ascii_title previous_is_cased [] = []"
| "ascii_title previous_is_cased (c # cs) =
     (if previous_is_cased then ascii_lower c else ascii_upper c) # ascii_title (ascii_cased c) cs"

definition py_title :: "unicode_db \<Rightarrow> ustr \<Rightarrow> ustr" where
  "py_title U s = (if is_ascii s then ascii_title False s else title_beyond_ascii U s)"

text \<open>\<^verbatim>\<open>s.replace(old, new)\<close> for a non-empty \<open>old\<close>: every occurrence, left to right,
  without overlap.\<close>

fun py_replace :: "ustr \<Rightarrow> ustr \<Rightarrow> ustr \<Rightarrow> ustr" where
  "py_replace old new [] = []"
| "py_replace old new (c # cs) =
     (if old \<noteq> [] \<and> take (length old) (c # cs) = old
      then new @ py_replace old new (drop (length old) (c # cs))
      else c # py_replace old new cs)"

text \<open>\<^verbatim>\<open>sep.join(parts)\<close>.\<close>

fun py_join :: "ustr \<Rightarrow> ustr list \<Rightarrow> ustr" where
  "py_join sep [] = []"
| "py_join sep [p] = p"
| "py_join sep (p # q # ps) = p @ sep @ py_join sep (q # ps)"

section \<open>Configuration\<close>

text \<open>The dictionary \<^verbatim>\<open>FONT_THRESHOLDS\<close> keeps its insertion order when it is iterated,
  so it is an association list.\<close>

definition FONT_THRESHOLDS :: "(string \<times> real) list" where
  "FONT_THRESHOLDS = [(''H1'', 16), (''H2'', 14), (''H3'', 12), (''H4'', 10)]"

definition MAX_PAGES :: int where
  "MAX_PAGES = 50"

definition Y_THRESHOLD :: real where
  "Y_THRESHOLD = 8"

definition MIN_TEXT_LENGTH :: nat where
  "MIN_TEXT_LENGTH = 4"

definition EXCLUDED_HEADINGS :: "ustr set" where
  "EXCLUDED_HEADINGS = {ustr_of ''figure'', ustr_of ''table'', ustr_of ''appendix''}"

definition TITLE_MIN_FONT_SIZE :: real where
  "TITLE_MIN_FONT_SIZE = 9"

section \<open>Classifier\<close>

text \<open>
  The pattern \<^verbatim>\<open>^[\d\s\-\<close>(en dash)\<^verbatim>\<open>.():]+$\<close> under \<^verbatim>\<open>re.match\<close>. \<open>numpunct_char\<close> is the
  character class. The class holds the line feed, so the \<^verbatim>\<open>$\<close> that also matches before
  a final line feed matches nothing more than the end of the text does: the pattern
  matches exactly the non-empty texts all of whose characters are in the class.
\<close>

definition numpunct_char :: "unicode_db \<Rightarrow> nat \<Rightarrow> bool" where
  "numpunct_char U c = (py_isdecimal U c \<or> py_isspace c \<or> c = 45 \<or> c = 8211 \<or> c = 46
     \<or> c = 40 \<or> c = 41 \<or> c = 58)"

definition re_match_numpunct :: "unicode_db \<Rightarrow> ustr \<Rightarrow> bool" where
  "re_match_numpunct U s = (s \<noteq> [] \<and> list_all (numpunct_char U) s)"

definition is_heading :: "unicode_db \<Rightarrow> ustr \<Rightarrow> real \<Rightarrow> bool" where
  "is_heading U text avg_size =
     (let text = py_lower U (py_strip text)
      in length text \<ge> MIN_TEXT_LENGTH \<and>
         avg_size \<ge> the (map_of FONT_THRESHOLDS ''H3'') \<and>
         \<not> re_match_numpunct U text \<and>
         text \<notin> EXCLUDED_HEADINGS)"

definition is_potential_title :: "unicode_db \<Rightarrow> ustr \<Rightarrow> real \<Rightarrow> bool" where
  "is_potential_title U text avg_size =
     (let text = py_strip text
      in length text \<ge> MIN_TEXT_LENGTH \<and>
         avg_size \<ge> TITLE_MIN_FONT_SIZE \<and>
         \<not> re_match_numpunct U text)"

text \<open>\<^verbatim>\<open>next((level for level, size in FONT_THRESHOLDS.items() if avg_size >= size), None)\<close>\<close>

definition get_heading_level :: "real \<Rightarrow> string option" where
  "get_heading_level avg_size =
     map_option fst (find (\<lambda>(level, size). avg_size \<ge> size) FONT_THRESHOLDS)"

text \<open>The rank of a level tag, as \<^verbatim>\<open>outline_to_markdown\<close> reads it:
  \<^verbatim>\<open>int(item['level'][1])\<close>, defined where the second character is a digit.\<close>

definition level_rank :: "string \<Rightarrow> nat option" where
  "level_rank level =
     (case level of
        _ # d # _ \<Rightarrow>
          (if 48 \<le> (of_char d :: nat) \<and> (of_char d :: nat) \<le> 57
           then Some (of_char d - 48) else None)
      | _ \<Rightarrow> None)"

section \<open>Layout elements and boxes\<close>

text \<open>
  What the layout collaborator yields. A page is the sequence of its elements. An
  element is a text container, with its text, its lines (each a sequence of characters,
  of which the \<^verbatim>\<open>LTChar\<close> ones carry a font size) and its coordinate \<^verbatim>\<open>y0\<close>, or
  something else (a figure, a curve), which the source skips.
\<close>

datatype lt_item = LTChar real | LTAnno

datatype element = LTTextContainer ustr "lt_item list list" real | LTOther

type_synonym page = "element list"

definition average_fontsize :: "lt_item list list \<Rightarrow> real" where
  "average_fontsize lines =
     (let sizes = concat (map (\<lambda>line. concat (map (\<lambda>ch. case ch of LTChar s \<Rightarrow> [s] | LTAnno \<Rightarrow> []) line)) lines)
      in if sizes \<noteq> [] then sum_list sizes / real (length sizes) else 0)"

text \<open>The dictionary \<^verbatim>\<open>{"text": ..., "size": ..., "y0": ...}\<close> of one text container.\<close>

record box =
  b_text :: ustr
  b_size :: real
  b_y0 :: real

definition page_boxes :: "page \<Rightarrow> box list" where
  "page_boxes layout =
     concat (map (\<lambda>el. case el of
         LTTextContainer t lines y \<Rightarrow>
           (if average_fontsize lines > TITLE_MIN_FONT_SIZE
            then [\<lparr>b_text = py_strip t, b_size = average_fontsize lines, b_y0 = y\<rparr>] else [])
       | LTOther \<Rightarrow> []) layout)"

section \<open>LineGrouper\<close>

text \<open>The \<^verbatim>\<open>for box in boxes[1:]\<close> loop of \<^verbatim>\<open>group_boxes_by_y\<close>, with its three
  variables \<^verbatim>\<open>groups\<close>, \<^verbatim>\<open>current_group\<close> and \<^verbatim>\<open>last_y\<close>.\<close>

fun group_loop :: "real \<Rightarrow> box list \<Rightarrow> box list list \<Rightarrow> box list \<Rightarrow> real
    \<Rightarrow> box list list \<times> box list" where
  "group_loop y_thresh [] groups current_group last_y = (groups, current_group)"
| "group_loop y_thresh (b # bs) groups current_group last_y =
     (if \<bar>b_y0 b - last_y\<bar> \<le> y_thresh
      then group_loop y_thresh bs groups (current_group @ [b]) (b_y0 b)
      else group_loop y_thresh bs (groups @ [current_group]) [b] (b_y0 b))"

text \<open>\<^verbatim>\<open>sorted(boxes, key=lambda b: b['y0'], reverse=True)\<close>: Python's sort is stable, also
  with \<^verbatim>\<open>reverse=True\<close>, and so is \<open>sort_key\<close> on the negated key.\<close>

definition sort_boxes :: "box list \<Rightarrow> box list" where
  "sort_boxes boxes = sort_key (\<lambda>b. - b_y0 b) boxes"

definition group_boxes_by_y :: "box list \<Rightarrow> real \<Rightarrow> box list list" where
  "group_boxes_by_y boxes y_thresh =
     (if boxes = [] then []
      else
        let boxes = sort_boxes boxes;
            (groups, current_group) =
               group_loop y_thresh (tl boxes) [] [hd boxes] (b_y0 (hd boxes))
        in if current_group \<noteq> [] then groups @ [current_group] else groups)"

section \<open>OutlineBuilder\<close>

text \<open>An outline entry is a dictionary whose key \<^verbatim>\<open>y0\<close> is removed at the end, so it is an
  association list from keys to Python values.\<close>

datatype pyval = PStr ustr | PInt int | PFloat real

type_synonym item = "(string \<times> pyval) list"

datatype exn = ExtractionError | KeyError

record state =
  outline_list :: "item list"
  title_candidate :: "ustr option"
  largest_size :: real
  is_first_text :: bool

definition initial_state :: state where
  "initial_state = \<lparr>outline_list = [], title_candidate = None, largest_size = 0, is_first_text = True\<rparr>"

definition merged_text :: "box list \<Rightarrow> ustr" where
  "merged_text grp = py_join [10] (map b_text grp)"

definition avg_size :: "box list \<Rightarrow> real" where
  "avg_size grp = sum_list (map b_size grp) / real (length grp)"

text \<open>The body of the loop over the groups of one page; \<open>page_num\<close> counts from 0.\<close>

fun process_group :: "unicode_db \<Rightarrow> nat \<Rightarrow> box list \<Rightarrow> state \<Rightarrow> state" where
  "process_group U page_num [] st = st"
| "process_group U page_num (b # bs) st =
     (let grp = b # bs in
      if page_num = 0 \<and> is_first_text st \<and> is_potential_title U (merged_text grp) (avg_size grp)
      then
        (let st = (if avg_size grp > largest_size st
                   then st\<lparr>title_candidate := Some (merged_text grp), largest_size := avg_size grp\<rparr>
                   else st)
         in st\<lparr>is_first_text := False\<rparr>)
      else if is_heading U (merged_text grp) (avg_size grp)
      then
        (case get_heading_level (avg_size grp) of
           Some level \<Rightarrow>
             st\<lparr>outline_list := outline_list st @
                  [[(''level'', PStr (ustr_of level)),
                    (''text'', PStr (merged_text grp)),
                    (''page'', PInt (int page_num + 1)),
                    (''y0'', PFloat (fold min (map b_y0 bs) (b_y0 b)))]]\<rparr>
         | None \<Rightarrow> st)
      else st)"

definition process_page :: "unicode_db \<Rightarrow> nat \<Rightarrow> page \<Rightarrow> state \<Rightarrow> state" where
  "process_page U page_num layout st =
     fold (process_group U page_num) (group_boxes_by_y (page_boxes layout) Y_THRESHOLD) st"

text \<open>\<^verbatim>\<open>for page_num, layout in enumerate(...)\<close>: the counter is an argument.\<close>

fun process_pages :: "unicode_db \<Rightarrow> nat \<Rightarrow> page list \<Rightarrow> state \<Rightarrow> state" where
  "process_pages U page_num [] st = st"
| "process_pages U page_num (layout # rest) st =
     process_pages U (Suc page_num) rest (process_page U page_num layout st)"

text \<open>The slice \<^verbatim>\<open>xs[:n]\<close>; a negative \<open>n\<close> counts from the end.\<close>

definition py_slice_to :: "'a list \<Rightarrow> int \<Rightarrow> 'a list" where
  "py_slice_to xs n = (if n \<ge> 0 then take (nat n) xs else take (length xs - nat (- n)) xs)"

text \<open>The key \<^verbatim>\<open>(x['page'], -x['y0'])\<close> of the final sort; reading a missing key raises.\<close>

definition sort_key_of :: "item \<Rightarrow> (int \<times> real) option" where
  "sort_key_of x =
     (case map_of x ''page'' of
        Some (PInt p) \<Rightarrow> (case map_of x ''y0'' of Some (PFloat y) \<Rightarrow> Some (p, - y) | _ \<Rightarrow> None)
      | _ \<Rightarrow> None)"

definition sort_outline :: "item list \<Rightarrow> exn + item list" where
  "sort_outline outline =
     (if list_all (\<lambda>x. sort_key_of x \<noteq> None) outline
      then Inr (sort_key (\<lambda>x. the (sort_key_of x)) outline)
      else Inl KeyError)"

text \<open>\<^verbatim>\<open>item.pop(key, None)\<close>\<close>

definition py_pop :: "string \<Rightarrow> item \<Rightarrow> item" where
  "py_pop key x = filter (\<lambda>(k, v). k \<noteq> key) x"

record outline_record =
  title :: ustr
  outline :: "item list"

definition default_title :: "unicode_db \<Rightarrow> ustr \<Rightarrow> ustr" where
  "default_title U file_name =
     py_title U (py_replace (ustr_of ''.pdf'') [] (py_replace (ustr_of ''_'') (ustr_of '' '') file_name))"

text \<open>
  The body of the \<^verbatim>\<open>try\<close> block. \<open>extract_pages\<close> is the layout collaborator, with the
  pages already forced by \<^verbatim>\<open>list(pages)\<close>; it fails as a whole or yields the pages.
  \<^verbatim>\<open>title_candidate or ...\<close> takes the default for \<^verbatim>\<open>None\<close> and for the empty text.
\<close>

definition extract_body :: "unicode_db \<Rightarrow> ('b \<Rightarrow> exn + page list) \<Rightarrow> 'b \<Rightarrow> ustr \<Rightarrow> int
    \<Rightarrow> exn + outline_record" where
  "extract_body U extract_pages file_bytes file_name max_pages =
     (case extract_pages file_bytes of
        Inl e \<Rightarrow> Inl e
      | Inr pages \<Rightarrow>
          (let st = process_pages U 0 (py_slice_to pages max_pages) initial_state
           in case sort_outline (outline_list st) of
                Inl e \<Rightarrow> Inl e
              | Inr sorted_outline \<Rightarrow>
                  Inr \<lparr>title = (case title_candidate st of
                                 Some t \<Rightarrow> if t \<noteq> [] then t else default_title U file_name
                               | None \<Rightarrow> default_title U file_name),
                       outline = map (py_pop ''y0'') sorted_outline\<rparr>))"

text \<open>The whole function: \<^verbatim>\<open>except Exception\<close> turns every failure of the body into the
  degraded record (the message it prints is not modelled).\<close>

definition extract_pdfminer_outline :: "unicode_db \<Rightarrow> ('b \<Rightarrow> exn + page list) \<Rightarrow> 'b \<Rightarrow> ustr
    \<Rightarrow> int \<Rightarrow> outline_record" where
  "extract_pdfminer_outline U extract_pages file_bytes file_name max_pages =
     (case extract_body U extract_pages file_bytes file_name max_pages of
        Inr r \<Rightarrow> r
      | Inl e \<Rightarrow> \<lparr>title = file_name, outline = []\<rparr>)"

section \<open>Vocabulary of the statements\<close>

text \<open>The title test of one group, as the first branch of the loop body applies it.\<close>

definition title_check :: "unicode_db \<Rightarrow> box list \<Rightarrow> bool" where
  "title_check U grp = (grp \<noteq> [] \<and> is_potential_title U (merged_text grp) (avg_size grp))"

text \<open>Heading classification of one group: the entries that the second branch of the
  loop body appends, none or one.\<close>

definition heading_entries :: "unicode_db \<Rightarrow> nat \<Rightarrow> box list \<Rightarrow> item list" where
  "heading_entries U page_num grp =
     (case grp of
        [] \<Rightarrow> []
      | b # bs \<Rightarrow>
          (if is_heading U (merged_text grp) (avg_size grp)
           then (case get_heading_level (avg_size grp) of
                   Some level \<Rightarrow>
                     [[(''level'', PStr (ustr_of level)),
                       (''text'', PStr (merged_text grp)),
                       (''page'', PInt (int page_num + 1)),
                       (''y0'', PFloat (fold min (map b_y0 bs) (b_y0 b)))]]
                 | None \<Rightarrow> [])
           else []))"

text \<open>
  The default title in the words of the specification: strip the extension, replace
  underscores by spaces, title-case. The extension is what \<^verbatim>\<open>Path.stem\<close> removes, which
  the batch driver uses for the name of the output file: the last dot and what follows
  it, unless that dot is the first or the last character.
\<close>

definition strip_extension :: "ustr \<Rightarrow> ustr" where
  "strip_extension name =
     (let suffix_len = length (takeWhile (\<lambda>c. c \<noteq> 46) (rev name))
      in if 46 \<in> set name \<and> 0 < suffix_len \<and> suffix_len + 1 < length name
         then take (length name - suffix_len - 1) name else name)"

definition default_title_spec :: "unicode_db \<Rightarrow> ustr \<Rightarrow> ustr" where
  "default_title_spec U file_name =
     py_title U (py_replace (ustr_of ''_'') (ustr_of '' '') (strip_extension file_name))"

text \<open>A database that knows no digit and no letter beyond ASCII. The closed examples
  below are ASCII texts, on which no database is consulted.\<close>

definition ascii_only_db :: unicode_db where
  "ascii_only_db = \<lparr>nd_beyond_ascii = (\<lambda>c. False), lower_beyond_ascii = (\<lambda>s. s),
     title_beyond_ascii = (\<lambda>s. s)\<rparr>"

text \<open>A text container whose characters all have one font size.\<close>

definition text_container :: "string \<Rightarrow> real \<Rightarrow> real \<Rightarrow> element" where
  "text_container s font_size y = LTTextContainer (ustr_of s) [[LTChar font_size, LTAnno]] y"

text \<open>A document of two pages: a title, headings of two levels, body text and a figure.\<close>

definition example_document :: "page list" where
  "example_document =
     [[text_container ''Sample Report'' 24 700, text_container ''1 Introduction'' 18 650,
       text_container ''Body text of the report'' 10 600, LTOther],
      [text_container ''2.1 Setup'' 14 500, text_container ''2 Methods'' 18 700]]"

text \<open>The entries that heading classification alone gives for the groups of one page.\<close>

definition page_entries :: "unicode_db \<Rightarrow> nat \<Rightarrow> page \<Rightarrow> item list" where
  "page_entries U page_num layout =
     concat (map (heading_entries U page_num) (group_boxes_by_y (page_boxes layout) Y_THRESHOLD))"

text \<open>A document whose first page starts with a text too short for a title, followed by
  the title and a heading; a second page holds one more heading.\<close>

definition late_title_page :: page where
  "late_title_page =
     [text_container ''ab'' 20 700, text_container ''Real Title'' 18 600,
      text_container ''1 Introduction'' 16 500]"

definition late_title_document :: "page list" where
  "late_title_document = [late_title_page, [text_container ''2 Methods'' 16 700]]"

section \<open>The grouping loop\<close>

lemma group_loop_concat:
  "group_loop th bs gs cur ly = (gs', cur') \<Longrightarrow> concat gs' @ cur' = concat gs @ cur @ bs"
proof (induction bs arbitrary: gs cur ly)
  case Nil
  then show ?case by simp
next
  case (Cons b bs)
  show ?case
  proof (cases "\<bar>b_y0 b - ly\<bar> \<le> th")
    case True
    with Cons.prems have "group_loop th bs gs (cur @ [b]) (b_y0 b) = (gs', cur')" by simp
    from Cons.IH [OF this] show ?thesis by simp
  next
    case False
    with Cons.prems have "group_loop th bs (gs @ [cur]) [b] (b_y0 b) = (gs', cur')" by simp
    from Cons.IH [OF this] show ?thesis by simp
  qed
qed

lemma group_loop_nonempty:
  "group_loop th bs gs cur ly = (gs', cur') \<Longrightarrow> \<forall>g\<in>set (gs @ [cur]). g \<noteq> []
    \<Longrightarrow> \<forall>g\<in>set (gs' @ [cur']). g \<noteq> []"
proof (induction bs arbitrary: gs cur ly)
  case Nil
  then show ?case by simp
next
  case (Cons b bs)
  show ?case
  proof (cases "\<bar>b_y0 b - ly\<bar> \<le> th")
    case True
    with Cons.prems have run: "group_loop th bs gs (cur @ [b]) (b_y0 b) = (gs', cur')" by simp
    from Cons.prems have "\<forall>g\<in>set (gs @ [cur @ [b]]). g \<noteq> []" by simp
    from Cons.IH [OF run this] show ?thesis .
  next
    case False
    with Cons.prems have run: "group_loop th bs (gs @ [cur]) [b] (b_y0 b) = (gs', cur')" by simp
    from Cons.prems have "\<forall>g\<in>set ((gs @ [cur]) @ [[b]]). g \<noteq> []" by simp
    from Cons.IH [OF run this] show ?thesis .
  qed
qed

lemma group_loop_chained:
  "group_loop th bs gs cur ly = (gs', cur') \<Longrightarrow> cur \<noteq> [] \<Longrightarrow> ly = b_y0 (last cur)
    \<Longrightarrow> \<forall>g\<in>set (gs @ [cur]). successively (\<lambda>a b. \<bar>b_y0 b - b_y0 a\<bar> \<le> th) g
    \<Longrightarrow> \<forall>g\<in>set (gs' @ [cur']). successively (\<lambda>a b. \<bar>b_y0 b - b_y0 a\<bar> \<le> th) g"
proof (induction bs arbitrary: gs cur ly)
  case Nil
  then show ?case by simp
next
  case (Cons b bs)
  show ?case
  proof (cases "\<bar>b_y0 b - ly\<bar> \<le> th")
    case True
    with Cons.prems have run: "group_loop th bs gs (cur @ [b]) (b_y0 b) = (gs', cur')"
      by simp
    have "successively (\<lambda>a b. \<bar>b_y0 b - b_y0 a\<bar> \<le> th) (cur @ [b])"
      using Cons.prems True by (simp add: successively_append_iff)
    with Cons.prems have "\<forall>g\<in>set (gs @ [cur @ [b]]). successively (\<lambda>a b. \<bar>b_y0 b - b_y0 a\<bar> \<le> th) g"
      by simp
    from Cons.IH [OF run _ _ this] show ?thesis by simp
  next
    case False
    with Cons.prems have run: "group_loop th bs (gs @ [cur]) [b] (b_y0 b) = (gs', cur')"
      by simp
    from Cons.prems have "\<forall>g\<in>set ((gs @ [cur]) @ [[b]]). successively (\<lambda>a b. \<bar>b_y0 b - b_y0 a\<bar> \<le> th) g"
      by simp
    from Cons.IH [OF run _ _ this] show ?thesis by simp
  qed
qed

lemma group_loop_separated:
  "group_loop th bs gs cur ly = (gs', cur') \<Longrightarrow> cur \<noteq> [] \<Longrightarrow> ly = b_y0 (last cur)
    \<Longrightarrow> successively (\<lambda>g h. \<bar>b_y0 (hd h) - b_y0 (last g)\<bar> > th) (gs @ [cur])
    \<Longrightarrow> successively (\<lambda>g h. \<bar>b_y0 (hd h) - b_y0 (last g)\<bar> > th) (gs' @ [cur'])"
proof (induction bs arbitrary: gs cur ly)
  case Nil
  then show ?case by simp
next
  case (Cons b bs)
  show ?case
  proof (cases "\<bar>b_y0 b - ly\<bar> \<le> th")
    case True
    with Cons.prems have run: "group_loop th bs gs (cur @ [b]) (b_y0 b) = (gs', cur')"
      by simp
    have "successively (\<lambda>g h. \<bar>b_y0 (hd h) - b_y0 (last g)\<bar> > th) (gs @ [cur @ [b]])"
      using Cons.prems by (simp add: successively_append_iff)
    from Cons.IH [OF run _ _ this] show ?thesis by simp
  next
    case False
    with Cons.prems have run: "group_loop th bs (gs @ [cur]) [b] (b_y0 b) = (gs', cur')"
      by simp
    have "successively (\<lambda>g h. \<bar>b_y0 (hd h) - b_y0 (last g)\<bar> > th) ((gs @ [cur]) @ [[b]])"
      using Cons.prems False by (simp add: successively_append_iff)
    from Cons.IH [OF run _ _ this] show ?thesis by simp
  qed
qed

lemma sort_boxes_nonempty: "boxes \<noteq> [] \<Longrightarrow> sort_boxes boxes \<noteq> []"
  by (metis length_sort length_0_conv sort_boxes_def)

lemma group_boxes_by_y_unfold:
  assumes "boxes \<noteq> []"
  obtains s ss gs cur where "sort_boxes boxes = s # ss"
    and "group_loop th ss [] [s] (b_y0 s) = (gs, cur)"
    and "group_boxes_by_y boxes th = gs @ [cur]"
proof -
  from assms obtain s ss where S: "sort_boxes boxes = s # ss"
    using sort_boxes_nonempty by (cases "sort_boxes boxes") auto
  obtain gs cur where L: "group_loop th ss [] [s] (b_y0 s) = (gs, cur)"
    by (cases "group_loop th ss [] [s] (b_y0 s)") auto
  from group_loop_nonempty [OF L] have C: "cur \<noteq> []" by simp
  have "group_boxes_by_y boxes th = gs @ [cur]"
    using assms S L C by (simp add: group_boxes_by_y_def)
  with S L show thesis by (rule that)
qed

lemma group_concat: "concat (group_boxes_by_y boxes th) = sort_boxes boxes"
proof (cases "boxes = []")
  case True
  then show ?thesis by (simp add: group_boxes_by_y_def sort_boxes_def)
next
  case False
  then obtain s ss gs cur where *: "sort_boxes boxes = s # ss"
    "group_loop th ss [] [s] (b_y0 s) = (gs, cur)" "group_boxes_by_y boxes th = gs @ [cur]"
    by (rule group_boxes_by_y_unfold)
  from group_loop_concat [OF *(2)] * show ?thesis by simp
qed

lemma group_nonempty: "\<forall>g\<in>set (group_boxes_by_y boxes th). g \<noteq> []"
proof (cases "boxes = []")
  case True
  then show ?thesis by (simp add: group_boxes_by_y_def)
next
  case False
  from False obtain s ss gs cur where *: "sort_boxes boxes = s # ss"
    "group_loop th ss [] [s] (b_y0 s) = (gs, cur)" "group_boxes_by_y boxes th = gs @ [cur]"
    by (rule group_boxes_by_y_unfold)
  from group_loop_nonempty [OF *(2)] * show ?thesis by simp
qed

lemma group_chained:
  "\<forall>g\<in>set (group_boxes_by_y boxes th). successively (\<lambda>a b. \<bar>b_y0 b - b_y0 a\<bar> \<le> th) g"
proof (cases "boxes = []")
  case True
  then show ?thesis by (simp add: group_boxes_by_y_def)
next
  case False
  from False obtain s ss gs cur where *: "sort_boxes boxes = s # ss"
    "group_loop th ss [] [s] (b_y0 s) = (gs, cur)" "group_boxes_by_y boxes th = gs @ [cur]"
    by (rule group_boxes_by_y_unfold)
  from group_loop_chained [OF *(2)] * show ?thesis by simp
qed

lemma group_separated:
  "successively (\<lambda>g h. \<bar>b_y0 (hd h) - b_y0 (last g)\<bar> > th) (group_boxes_by_y boxes th)"
proof (cases "boxes = []")
  case True
  then show ?thesis by (simp add: group_boxes_by_y_def)
next
  case False
  from False obtain s ss gs cur where *: "sort_boxes boxes = s # ss"
    "group_loop th ss [] [s] (b_y0 s) = (gs, cur)" "group_boxes_by_y boxes th = gs @ [cur]"
    by (rule group_boxes_by_y_unfold)
  from group_loop_separated [OF *(2)] * show ?thesis by simp
qed

lemma sort_boxes_sorted: "sorted (map (\<lambda>b. - b_y0 b) (sort_boxes boxes))"
  by (simp add: sort_boxes_def)

lemma sort_boxes_mset: "mset (sort_boxes boxes) = mset boxes"
  by (simp add: sort_boxes_def)

lemma group_loop_run:
  "successively (\<lambda>a b. \<bar>b_y0 b - b_y0 a\<bar> \<le> th) M \<Longrightarrow> (M \<noteq> [] \<longrightarrow> \<bar>b_y0 (hd M) - ly\<bar> \<le> th)
    \<Longrightarrow> group_loop th (M @ post) gs cur ly
        = group_loop th post gs (cur @ M) (if M = [] then ly else b_y0 (last M))"
proof (induction M arbitrary: cur ly)
  case Nil
  then show ?case by simp
next
  case (Cons m M)
  from Cons.prems have near: "\<bar>b_y0 m - ly\<bar> \<le> th" by simp
  from Cons.prems have succ: "successively (\<lambda>a b. \<bar>b_y0 b - b_y0 a\<bar> \<le> th) M"
    and hd: "M \<noteq> [] \<longrightarrow> \<bar>b_y0 (hd M) - b_y0 m\<bar> \<le> th"
    by (auto simp: successively_Cons)
  from Cons.IH [OF succ hd, of "cur @ [m]"] near show ?case by simp
qed

lemma group_loop_keeps:
  "group_loop th bs gs cur ly = (gs', cur')
    \<Longrightarrow> set gs \<subseteq> set gs' \<union> {cur'} \<and> (\<exists>g\<in>set (gs' @ [cur']). set cur \<subseteq> set g)"
proof (induction bs arbitrary: gs cur ly)
  case Nil
  then show ?case by auto
next
  case (Cons b bs)
  show ?case
  proof (cases "\<bar>b_y0 b - ly\<bar> \<le> th")
    case True
    with Cons.prems have run: "group_loop th bs gs (cur @ [b]) (b_y0 b) = (gs', cur')" by simp
    from Cons.IH [OF run] show ?thesis by auto
  next
    case False
    with Cons.prems have run: "group_loop th bs (gs @ [cur]) [b] (b_y0 b) = (gs', cur')" by simp
    from Cons.IH [OF run] show ?thesis by auto
  qed
qed

lemma group_loop_append:
  "group_loop th (pre @ rest) gs cur ly =
     (case group_loop th pre gs cur ly of
        (gs1, cur1) \<Rightarrow> group_loop th rest gs1 cur1 (if pre = [] then ly else b_y0 (last pre)))"
  by (induction pre arbitrary: gs cur ly) simp_all

lemma group_loop_enters_run:
  assumes "M \<noteq> []" and "successively (\<lambda>a b. \<bar>b_y0 b - b_y0 a\<bar> \<le> th) M"
  shows "\<exists>gs2 cur2. group_loop th (M @ post) gs cur ly = group_loop th post gs2 cur2 (b_y0 (last M))
           \<and> set M \<subseteq> set cur2"
proof -
  from assms(1) obtain m M' where M: "M = m # M'" by (cases M) auto
  from assms(2) M have succ: "successively (\<lambda>a b. \<bar>b_y0 b - b_y0 a\<bar> \<le> th) M'"
    and hd: "M' \<noteq> [] \<longrightarrow> \<bar>b_y0 (hd M') - b_y0 m\<bar> \<le> th"
    by (auto simp: successively_Cons)
  show ?thesis
  proof (cases "\<bar>b_y0 m - ly\<bar> \<le> th")
    case True
    then have "group_loop th (M @ post) gs cur ly = group_loop th (M' @ post) gs (cur @ [m]) (b_y0 m)"
      by (simp add: M)
    also have "\<dots> = group_loop th post gs ((cur @ [m]) @ M') (b_y0 (last M))"
      using group_loop_run [OF succ hd] by (simp add: M)
    finally show ?thesis using M by fastforce
  next
    case False
    then have "group_loop th (M @ post) gs cur ly = group_loop th (M' @ post) (gs @ [cur]) [m] (b_y0 m)"
      by (simp add: M)
    also have "\<dots> = group_loop th post (gs @ [cur]) ([m] @ M') (b_y0 (last M))"
      using group_loop_run [OF succ hd] by (simp add: M)
    finally show ?thesis using M by fastforce
  qed
qed

lemma group_contains_run:
  assumes S: "sort_boxes boxes = A @ M @ B" and M: "M \<noteq> []"
    and succ: "successively (\<lambda>a b. \<bar>b_y0 b - b_y0 a\<bar> \<le> th) M"
  shows "\<exists>g\<in>set (group_boxes_by_y boxes th). set M \<subseteq> set g"
proof -
  from S M have "boxes \<noteq> []" by (auto simp: sort_boxes_def)
  then obtain s ss gs cur where *: "sort_boxes boxes = s # ss"
    "group_loop th ss [] [s] (b_y0 s) = (gs, cur)" "group_boxes_by_y boxes th = gs @ [cur]"
    by (rule group_boxes_by_y_unfold)
  show ?thesis
  proof (cases A)
    case Nil
    with S M * obtain M' where M': "M = s # M'" "ss = M' @ B" by (cases M) auto
    from succ M' have succ': "successively (\<lambda>a b. \<bar>b_y0 b - b_y0 a\<bar> \<le> th) M'"
      and hd: "M' \<noteq> [] \<longrightarrow> \<bar>b_y0 (hd M') - b_y0 s\<bar> \<le> th"
      by (auto simp: successively_Cons)
    from group_loop_run [OF succ' hd, of B "[]" "[s]"] *(2) M'
    have "group_loop th B [] ([s] @ M') (if M' = [] then b_y0 s else b_y0 (last M')) = (gs, cur)"
      by simp
    from group_loop_keeps [OF this] obtain g where g: "g \<in> set (gs @ [cur])" "set ([s] @ M') \<subseteq> set g"
      by blast
    with M' *(3) show ?thesis by auto
  next
    case (Cons a A')
    with S * have ss: "ss = A' @ (M @ B)" by simp
    obtain gs1 cur1 where pre: "group_loop th A' [] [s] (b_y0 s) = (gs1, cur1)"
      by (cases "group_loop th A' [] [s] (b_y0 s)") auto
    from group_loop_enters_run [OF M succ] obtain gs2 cur2 where
      run: "group_loop th (M @ B) gs1 cur1 (if A' = [] then b_y0 s else b_y0 (last A'))
              = group_loop th B gs2 cur2 (b_y0 (last M))" and sub: "set M \<subseteq> set cur2"
      by blast
    from *(2) ss pre run have "group_loop th B gs2 cur2 (b_y0 (last M)) = (gs, cur)"
      by (simp add: group_loop_append)
    from group_loop_keeps [OF this] obtain g where g: "g \<in> set (gs @ [cur])" "set cur2 \<subseteq> set g"
      by blast
    from g(2) sub have "set M \<subseteq> set g" by blast
    with g(1) *(3) show ?thesis by auto
  qed
qed

lemma sorted_desc_parts:
  assumes "sorted (map (\<lambda>b. - b_y0 b) S)"
    and "\<forall>x\<in>set S. 88 < b_y0 x \<and> b_y0 x < 100 \<longrightarrow> b_y0 x = 94"
  shows "S = filter (\<lambda>x. b_y0 x > 100) S @
            (filter (\<lambda>x. b_y0 x = 100) S @ filter (\<lambda>x. b_y0 x = 94) S @ filter (\<lambda>x. b_y0 x = 88) S) @
            filter (\<lambda>x. b_y0 x < 88) S"
  using assms
proof (induction S)
  case Nil
  then show ?case by simp
next
  case (Cons x S)
  then have IH: "S = filter (\<lambda>x. b_y0 x > 100) S @
            (filter (\<lambda>x. b_y0 x = 100) S @ filter (\<lambda>x. b_y0 x = 94) S @ filter (\<lambda>x. b_y0 x = 88) S) @
            filter (\<lambda>x. b_y0 x < 88) S" and le: "\<forall>y\<in>set S. b_y0 y \<le> b_y0 x"
    and cls: "88 < b_y0 x \<and> b_y0 x < 100 \<longrightarrow> b_y0 x = 94"
    by simp_all
  consider "b_y0 x > 100" | "b_y0 x = 100" | "b_y0 x = 94" | "b_y0 x = 88" | "b_y0 x < 88"
    using cls by fastforce
  then show ?case
  proof cases
    case 1
    with IH show ?thesis by simp
  next
    case 2
    with le have "filter (\<lambda>x. b_y0 x > 100) S = []" by (auto simp: filter_empty_conv)
    with 2 IH show ?thesis by simp
  next
    case 3
    with le have "filter (\<lambda>x. b_y0 x > 100) S = []" "filter (\<lambda>x. b_y0 x = 100) S = []"
      by (auto simp: filter_empty_conv)
    with 3 IH show ?thesis by simp
  next
    case 4
    with le have "filter (\<lambda>x. b_y0 x > 100) S = []" "filter (\<lambda>x. b_y0 x = 100) S = []"
      "filter (\<lambda>x. b_y0 x = 94) S = []"
      by (auto simp: filter_empty_conv)
    with 4 IH show ?thesis by simp
  next
    case 5
    with le have "filter (\<lambda>x. b_y0 x > 100) S = []" "filter (\<lambda>x. b_y0 x = 100) S = []"
      "filter (\<lambda>x. b_y0 x = 94) S = []" "filter (\<lambda>x. b_y0 x = 88) S = []"
      by (auto simp: filter_empty_conv)
    with 5 IH show ?thesis by simp
  qed
qed

lemma successively_same_y0:
  "\<forall>x\<in>set xs. b_y0 x = c \<Longrightarrow> 0 \<le> th \<Longrightarrow> successively (\<lambda>a b. \<bar>b_y0 b - b_y0 a\<bar> \<le> th) xs"
proof (induction xs)
  case Nil
  then show ?case by simp
next
  case (Cons x xs)
  then show ?case by (cases xs) simp_all
qed

lemma three_in_one_group:
  assumes a: "a \<in> set boxes" "b_y0 a = 100" and b: "b \<in> set boxes" "b_y0 b = 94"
    and c: "c \<in> set boxes" "b_y0 c = 88"
    and between: "\<forall>x\<in>set boxes. 88 < b_y0 x \<and> b_y0 x < 100 \<longrightarrow> b_y0 x = 94"
  shows "\<exists>g\<in>set (group_boxes_by_y boxes 8). a \<in> set g \<and> b \<in> set g \<and> c \<in> set g"
proof -
  let ?S = "sort_boxes boxes"
  let ?M100 = "filter (\<lambda>x. b_y0 x = 100) ?S"
  let ?M94 = "filter (\<lambda>x. b_y0 x = 94) ?S"
  let ?M88 = "filter (\<lambda>x. b_y0 x = 88) ?S"
  let ?M = "?M100 @ ?M94 @ ?M88"
  let ?near = "\<lambda>a b. \<bar>b_y0 b - b_y0 a\<bar> \<le> (8::real)"
  have set_S: "set ?S = set boxes" by (simp add: sort_boxes_def)
  from between have "\<forall>x\<in>set ?S. 88 < b_y0 x \<and> b_y0 x < 100 \<longrightarrow> b_y0 x = 94"
    by (simp add: set_S)
  from sorted_desc_parts [OF sort_boxes_sorted this]
  have parts: "?S = filter (\<lambda>x. b_y0 x > 100) ?S @ ?M @ filter (\<lambda>x. b_y0 x < 88) ?S" .
  from b have b94: "b \<in> set ?M94" by (simp add: set_S)
  then have ne94: "?M94 \<noteq> []" by (metis empty_iff empty_set)
  have s100: "successively ?near ?M100"
    by (rule successively_same_y0 [where c = 100]) simp_all
  have s94: "successively ?near ?M94"
    by (rule successively_same_y0 [where c = 94]) simp_all
  have s88: "successively ?near ?M88"
    by (rule successively_same_y0 [where c = 88]) simp_all
  have l94: "b_y0 (last ?M94) = 94"
    using last_in_set [OF ne94] by simp
  have h94: "b_y0 (hd ?M94) = 94"
    using hd_in_set [OF ne94] by simp
  have s2: "successively ?near (?M94 @ ?M88)"
  proof (cases "?M88 = []")
    case True
    with s94 show ?thesis by simp
  next
    case False
    from hd_in_set [OF False] have "b_y0 (hd ?M88) = 88" by simp
    with s94 s88 l94 show ?thesis by (simp add: successively_append_iff)
  qed
  have hd2: "hd (?M94 @ ?M88) = hd ?M94" using ne94 by simp
  have "successively ?near ?M"
  proof (cases "?M100 = []")
    case True
    with s2 show ?thesis by simp
  next
    case False
    from last_in_set [OF False] have "b_y0 (last ?M100) = 100" by simp
    with s100 s2 h94 hd2 show ?thesis by (simp add: successively_append_iff)
  qed
  moreover have "?M \<noteq> []" using ne94 by simp
  ultimately obtain g where g: "g \<in> set (group_boxes_by_y boxes 8)" "set ?M \<subseteq> set g"
    using group_contains_run [OF parts] by blast
  from a b c have "a \<in> set ?M" "b \<in> set ?M" "c \<in> set ?M" by (simp_all add: set_S)
  with g show ?thesis by blast
qed

section \<open>Facts about the classifier\<close>

lemma H3_threshold: "the (map_of FONT_THRESHOLDS ''H3'') = 12"
  by (simp add: FONT_THRESHOLDS_def)

lemma get_heading_level_cases:
  "get_heading_level s =
     (if 16 \<le> s then Some ''H1'' else if 14 \<le> s then Some ''H2''
      else if 12 \<le> s then Some ''H3'' else if 10 \<le> s then Some ''H4'' else None)"
  by (simp add: get_heading_level_def FONT_THRESHOLDS_def)

lemmas classifier_defs = is_heading_def is_potential_title_def ustr_of_def py_strip_def
  py_isspace_def py_lower_def is_ascii_def ascii_lower_def EXCLUDED_HEADINGS_def
  MIN_TEXT_LENGTH_def TITLE_MIN_FONT_SIZE_def H3_threshold re_match_numpunct_def
  numpunct_char_def py_isdecimal_def


section \<open>The loop over groups and pages\<close>

lemma heading_entries_cases:
  "heading_entries U page_num grp = [] \<or>
   (\<exists>l t y. heading_entries U page_num grp =
      [[(''level'', PStr l), (''text'', PStr t), (''page'', PInt (int page_num + 1)), (''y0'', PFloat y)]])"
proof (cases grp)
  case Nil
  then show ?thesis by (simp add: heading_entries_def)
next
  case (Cons b bs)
  show ?thesis
  proof (cases "is_heading U (merged_text grp) (avg_size grp)")
    case False
    with Cons show ?thesis by (simp add: heading_entries_def)
  next
    case True
    show ?thesis
    proof (cases "get_heading_level (avg_size grp)")
      case None
      with True Cons show ?thesis by (simp add: heading_entries_def)
    next
      case (Some level)
      with True Cons show ?thesis by (simp add: heading_entries_def)
    qed
  qed
qed

lemma heading_entries_shape:
  assumes "x \<in> set (heading_entries U page_num grp)"
  shows "map fst x = [''level'', ''text'', ''page'', ''y0'']
     \<and> map_of x ''page'' = Some (PInt (int page_num + 1))
     \<and> (\<exists>y. sort_key_of x = Some (int page_num + 1, - y))"
proof -
  from heading_entries_cases [of U page_num grp] assms obtain l t y where
    "x = [(''level'', PStr l), (''text'', PStr t), (''page'', PInt (int page_num + 1)), (''y0'', PFloat y)]"
    by auto
  then show ?thesis by (simp add: sort_key_of_def)
qed

lemma process_group_heading_only:
  "page_num \<noteq> 0 \<or> \<not> is_first_text st \<or> \<not> title_check U grp \<Longrightarrow>
     process_group U page_num grp st
       = st\<lparr>outline_list := outline_list st @ heading_entries U page_num grp\<rparr>"
  by (cases grp) (auto simp: heading_entries_def title_check_def Let_def split: option.splits)

lemma title_check_size: "title_check U grp \<Longrightarrow> avg_size grp \<ge> 9"
  by (simp add: title_check_def is_potential_title_def Let_def TITLE_MIN_FONT_SIZE_def)

lemma process_group_title:
  "is_first_text st \<Longrightarrow> title_check U grp \<Longrightarrow> largest_size st = 0 \<Longrightarrow>
     process_group U 0 grp st
       = st\<lparr>title_candidate := Some (merged_text grp), largest_size := avg_size grp,
            is_first_text := False\<rparr>"
  using title_check_size [of U grp]
  by (cases grp) (auto simp: title_check_def Let_def)

lemma fold_heading_only:
  "page_num \<noteq> 0 \<or> \<not> is_first_text st \<Longrightarrow>
     fold (process_group U page_num) gs st
       = st\<lparr>outline_list := outline_list st @ concat (map (heading_entries U page_num) gs)\<rparr>"
proof (induction gs arbitrary: st)
  case Nil
  then show ?case by simp
next
  case (Cons g gs)
  from Cons.prems have step: "process_group U page_num g st
       = st\<lparr>outline_list := outline_list st @ heading_entries U page_num g\<rparr>"
    by (intro process_group_heading_only) blast
  from Cons.prems have "page_num \<noteq> 0 \<or>
      \<not> is_first_text (st\<lparr>outline_list := outline_list st @ heading_entries U page_num g\<rparr>)"
    by simp
  from Cons.IH [OF this] step show ?case by simp
qed

lemma fold_no_title:
  "\<forall>g\<in>set gs. \<not> title_check U g \<Longrightarrow>
     fold (process_group U page_num) gs st
       = st\<lparr>outline_list := outline_list st @ concat (map (heading_entries U page_num) gs)\<rparr>"
proof (induction gs arbitrary: st)
  case Nil
  then show ?case by simp
next
  case (Cons g gs)
  from Cons.prems have step: "process_group U page_num g st
       = st\<lparr>outline_list := outline_list st @ heading_entries U page_num g\<rparr>"
    by (intro process_group_heading_only) simp
  from Cons.prems have "\<forall>g\<in>set gs. \<not> title_check U g" by simp
  from Cons.IH [OF this] step show ?case by simp
qed

lemma fold_first_page:
  assumes first: "is_first_text st" and zero: "largest_size st = 0"
    and pre: "\<forall>p\<in>set pre. \<not> title_check U p" and g: "title_check U g"
  shows "fold (process_group U 0) (pre @ g # rest) st =
       st\<lparr>outline_list := outline_list st @ concat (map (heading_entries U 0) pre)
                  @ concat (map (heading_entries U 0) rest),
          title_candidate := Some (merged_text g), largest_size := avg_size g,
          is_first_text := False\<rparr>"
proof -
  let ?st1 = "st\<lparr>outline_list := outline_list st @ concat (map (heading_entries U 0) pre)\<rparr>"
  let ?st2 = "?st1\<lparr>title_candidate := Some (merged_text g), largest_size := avg_size g,
            is_first_text := False\<rparr>"
  have 1: "fold (process_group U 0) pre st = ?st1"
    using pre by (rule fold_no_title)
  have 2: "process_group U 0 g ?st1 = ?st2"
    using first zero g by (intro process_group_title) simp_all
  have 3: "fold (process_group U 0) rest ?st2
      = ?st2\<lparr>outline_list := outline_list ?st2 @ concat (map (heading_entries U 0) rest)\<rparr>"
    by (rule fold_heading_only) simp
  show ?thesis by (simp add: 1 2 3)
qed

lemma process_pages_later:
  "page_num \<noteq> 0 \<Longrightarrow>
     process_pages U page_num pages st =
       st\<lparr>outline_list := outline_list st @
           concat (map (\<lambda>(i, layout). concat (map (heading_entries U i)
                      (group_boxes_by_y (page_boxes layout) Y_THRESHOLD)))
                   (zip [page_num ..< page_num + length pages] pages))\<rparr>"
proof (induction pages arbitrary: page_num st)
  case Nil
  then show ?case by simp
next
  case (Cons layout pages)
  have step: "process_page U page_num layout st
     = st\<lparr>outline_list := outline_list st @ concat (map (heading_entries U page_num)
                      (group_boxes_by_y (page_boxes layout) Y_THRESHOLD))\<rparr>"
    unfolding process_page_def using Cons.prems by (intro fold_heading_only) simp
  have up: "[page_num ..< page_num + length (layout # pages)]
      = page_num # [Suc page_num ..< Suc page_num + length pages]"
    by (simp add: upt_rec)
  have "Suc page_num \<noteq> 0" by simp
  from Cons.IH [OF this] step up show ?case by simp
qed

lemma process_pages_later_entries:
  "page_num \<noteq> 0 \<Longrightarrow>
     process_pages U page_num pages st =
       st\<lparr>outline_list := outline_list st @
           concat (map (\<lambda>(i, layout). page_entries U i layout)
                   (zip [page_num ..< page_num + length pages] pages))\<rparr>"
  unfolding page_entries_def by (rule process_pages_later)

lemma process_group_outline:
  "outline_list (process_group U n g st) = outline_list st
   \<or> outline_list (process_group U n g st) = outline_list st @ heading_entries U n g"
proof (cases "n \<noteq> 0 \<or> \<not> is_first_text st \<or> \<not> title_check U g")
  case True
  then show ?thesis by (simp add: process_group_heading_only)
next
  case False
  then obtain b bs where g: "g = b # bs" by (cases g) (auto simp: title_check_def)
  from False have "n = 0" "is_first_text st" "is_potential_title U (merged_text g) (avg_size g)"
    by (auto simp: title_check_def)
  then show ?thesis by (simp add: g Let_def)
qed

lemma fold_outline:
  "x \<in> set (outline_list (fold (process_group U n) gs st)) \<Longrightarrow>
     x \<in> set (outline_list st) \<or> (\<exists>g. x \<in> set (heading_entries U n g))"
proof (induction gs arbitrary: st)
  case Nil
  then show ?case by simp
next
  case (Cons g gs)
  from Cons.prems have "x \<in> set (outline_list (fold (process_group U n) gs (process_group U n g st)))"
    by simp
  from Cons.IH [OF this] process_group_outline [of U n g st] show ?case by auto
qed

lemma process_pages_outline:
  "x \<in> set (outline_list (process_pages U n pages st)) \<Longrightarrow>
     x \<in> set (outline_list st)
     \<or> (\<exists>i g. n \<le> i \<and> i < n + length pages \<and> x \<in> set (heading_entries U i g))"
proof (induction pages arbitrary: n st)
  case Nil
  then show ?case by simp
next
  case (Cons layout pages)
  from Cons.prems have "x \<in> set (outline_list (process_pages U (Suc n) pages (process_page U n layout st)))"
    by simp
  from Cons.IH [OF this] consider
    (here) "x \<in> set (outline_list (process_page U n layout st))"
    | (later) i g where "Suc n \<le> i" "i < Suc n + length pages" "x \<in> set (heading_entries U i g)"
    by blast
  then show ?case
  proof cases
    case here
    from fold_outline [OF here [unfolded process_page_def]] show ?thesis
      by (auto intro: exI [of _ n])
  next
    case later
    then have "n \<le> i" "i < n + length (layout # pages)" by simp_all
    with later(3) show ?thesis by blast
  qed
qed

lemma document_entries:
  assumes "x \<in> set (outline_list (process_pages U 0 pages initial_state))"
  shows "map fst x = [''level'', ''text'', ''page'', ''y0'']
     \<and> (\<exists>p y. map_of x ''page'' = Some (PInt p) \<and> sort_key_of x = Some (p, - y)
              \<and> 1 \<le> p \<and> p \<le> int (length pages))"
proof -
  from process_pages_outline [OF assms] obtain i g where
    i: "i < length pages" and x: "x \<in> set (heading_entries U i g)"
    by (auto simp: initial_state_def)
  from heading_entries_shape [OF x] i show ?thesis by auto
qed

lemma sort_outline_document:
  "sort_outline (outline_list (process_pages U 0 pages initial_state))
     = Inr (sort_key (\<lambda>x. the (sort_key_of x)) (outline_list (process_pages U 0 pages initial_state)))"
proof -
  have "list_all (\<lambda>x. sort_key_of x \<noteq> None) (outline_list (process_pages U 0 pages initial_state))"
    unfolding list_all_iff
  proof
    fix x assume "x \<in> set (outline_list (process_pages U 0 pages initial_state))"
    from document_entries [OF this] obtain p y where "sort_key_of x = Some (p, - y)" by blast
    then show "sort_key_of x \<noteq> None" by simp
  qed
  then show ?thesis by (simp add: sort_outline_def)
qed

lemma extract_ok:
  assumes "extract_pages file_bytes = Inr pages"
  shows "extract_pdfminer_outline U extract_pages file_bytes file_name max_pages =
     \<lparr>title = (case title_candidate (process_pages U 0 (py_slice_to pages max_pages) initial_state) of
                 Some t \<Rightarrow> if t \<noteq> [] then t else default_title U file_name
               | None \<Rightarrow> default_title U file_name),
      outline = map (py_pop ''y0'') (sort_key (\<lambda>x. the (sort_key_of x))
                  (outline_list (process_pages U 0 (py_slice_to pages max_pages) initial_state)))\<rparr>"
  using assms
  by (simp add: extract_pdfminer_outline_def extract_body_def sort_outline_document Let_def)

lemma py_slice_to_length:
  "0 \<le> n \<Longrightarrow> int (length (py_slice_to xs n)) = min (int (length xs)) n"
  by (auto simp: py_slice_to_def min_def)

lemma py_slice_to_MAX: "py_slice_to xs MAX_PAGES = take 50 xs"
  by (simp add: py_slice_to_def MAX_PAGES_def)

section \<open>Evaluation and dictionaries\<close>

lemmas eval_defs = classifier_defs extract_pdfminer_outline_def extract_body_def
  process_page_def page_boxes_def average_fontsize_def text_container_def
  group_boxes_by_y_def sort_boxes_def Y_THRESHOLD_def merged_text_def avg_size_def
  initial_state_def sort_outline_def sort_key_of_def py_pop_def default_title_def
  py_title_def ascii_upper_def ascii_cased_def py_slice_to_def MAX_PAGES_def
  get_heading_level_cases Let_def example_document_def

lemma py_pop_keys: "map fst (py_pop key x) = filter (\<lambda>k. k \<noteq> key) (map fst x)"
  by (induction x) (auto simp: py_pop_def)

lemma py_pop_other: "k \<noteq> key \<Longrightarrow> map_of (py_pop key x) k = map_of x k"
  by (induction x) (auto simp: py_pop_def)

lemmas late_title_defs = late_title_document_def late_title_page_def title_check_def
  heading_entries_def page_entries_def


section \<open>Grouping and classification\<close>

text \<open>
  Claim C10. For every list of boxes, the groups of \<open>group_boxes_by_y\<close> partition the
  input: their concatenation, in order, is the input sorted by \<open>y0\<close> descending (a
  permutation of the input, so every box is in exactly one group), and no group is empty.
\<close>
theorem group_boxes_by_y_partition:
  "concat (group_boxes_by_y boxes y_thresh) = sort_boxes boxes
   \<and> sorted_wrt (\<lambda>a b. b_y0 a \<ge> b_y0 b) (sort_boxes boxes)
   \<and> mset (sort_boxes boxes) = mset boxes
   \<and> mset (concat (group_boxes_by_y boxes y_thresh)) = mset boxes
   \<and> [] \<notin> set (group_boxes_by_y boxes y_thresh)"
proof -
  have "sorted_wrt (\<lambda>a b. b_y0 a \<ge> b_y0 b) (sort_boxes boxes)"
    using sort_boxes_sorted [of boxes] by (simp add: sorted_map)
  moreover have "[] \<notin> set (group_boxes_by_y boxes y_thresh)"
    using group_nonempty [of boxes y_thresh] by blast
  ultimately show ?thesis
    by (simp add: group_concat sort_boxes_mset)
qed

text \<open>
  Claim C3. Grouping chains proximity. The groups, concatenated, are the boxes sorted by
  \<open>y0\<close> descending; walking in that order a box joins the current group exactly when it
  is within the threshold of the box just before it: inside a group every box is within
  the threshold of its predecessor, and the first box of a group is farther than the
  threshold from the last box of the group before. Hence boxes at 100, 94 and 88, with no
  other box strictly between 88 and 100, are in one group under \<open>Y_THRESHOLD\<close>, although
  100 and 88 are farther apart than the threshold. No box gives no group, one box gives one
  singleton group.
\<close>
theorem group_boxes_by_y_chains:
  "concat (group_boxes_by_y boxes y_thresh) = sort_boxes boxes
   \<and> sorted_wrt (\<lambda>a b. b_y0 a \<ge> b_y0 b) (sort_boxes boxes)
   \<and> (\<forall>g\<in>set (group_boxes_by_y boxes y_thresh).
         successively (\<lambda>p b. \<bar>b_y0 b - b_y0 p\<bar> \<le> y_thresh) g)
   \<and> successively (\<lambda>g h. \<bar>b_y0 (hd h) - b_y0 (last g)\<bar> > y_thresh)
         (group_boxes_by_y boxes y_thresh)
   \<and> (a \<in> set boxes \<and> b_y0 a = 100 \<and> b \<in> set boxes \<and> b_y0 b = 94 \<and> c \<in> set boxes \<and> b_y0 c = 88
        \<and> (\<forall>x\<in>set boxes. 88 < b_y0 x \<and> b_y0 x < 100 \<longrightarrow> b_y0 x = 94)
      \<longrightarrow> (\<exists>g\<in>set (group_boxes_by_y boxes Y_THRESHOLD). a \<in> set g \<and> b \<in> set g \<and> c \<in> set g)
          \<and> \<bar>b_y0 a - b_y0 c\<bar> > Y_THRESHOLD)
   \<and> group_boxes_by_y [] y_thresh = []
   \<and> group_boxes_by_y [x] y_thresh = [[x]]"
proof -
  have 1: "sorted_wrt (\<lambda>a b. b_y0 a \<ge> b_y0 b) (sort_boxes boxes)"
    using sort_boxes_sorted [of boxes] by (simp add: sorted_map)
  have 2: "a \<in> set boxes \<and> b_y0 a = 100 \<and> b \<in> set boxes \<and> b_y0 b = 94 \<and> c \<in> set boxes \<and> b_y0 c = 88
        \<and> (\<forall>x\<in>set boxes. 88 < b_y0 x \<and> b_y0 x < 100 \<longrightarrow> b_y0 x = 94)
      \<longrightarrow> (\<exists>g\<in>set (group_boxes_by_y boxes Y_THRESHOLD). a \<in> set g \<and> b \<in> set g \<and> c \<in> set g)
          \<and> \<bar>b_y0 a - b_y0 c\<bar> > Y_THRESHOLD"
    using three_in_one_group [where a = a and b = b and c = c and boxes = boxes] by (simp add: Y_THRESHOLD_def)
  have 3: "group_boxes_by_y [] y_thresh = []"
    by (simp add: group_boxes_by_y_def)
  have 4: "group_boxes_by_y [x] y_thresh = [[x]]"
    by (simp add: group_boxes_by_y_def sort_boxes_def)
  from 1 2 3 4 group_concat [where boxes = boxes and th = y_thresh]
    group_chained [where boxes = boxes and th = y_thresh]
    group_separated [where boxes = boxes and th = y_thresh]
  show ?thesis by blast
qed

theorem group_boxes_by_y_chains_witness:
  "(\<exists>g\<in>set (group_boxes_by_y
       [\<lparr>b_text = [66], b_size = 12, b_y0 = 88\<rparr>, \<lparr>b_text = [65], b_size = 12, b_y0 = 100\<rparr>,
        \<lparr>b_text = [67], b_size = 12, b_y0 = 94\<rparr>, \<lparr>b_text = [68], b_size = 12, b_y0 = 70\<rparr>] Y_THRESHOLD).
      \<lparr>b_text = [65], b_size = 12, b_y0 = 100\<rparr> \<in> set g \<and> \<lparr>b_text = [67], b_size = 12, b_y0 = 94\<rparr> \<in> set g
      \<and> \<lparr>b_text = [66], b_size = 12, b_y0 = 88\<rparr> \<in> set g)
   \<and> \<bar>b_y0 \<lparr>b_text = [65], b_size = 12, b_y0 = 100\<rparr> - b_y0 \<lparr>b_text = [66], b_size = 12, b_y0 = 88\<rparr>\<bar> > Y_THRESHOLD"
  using group_boxes_by_y_chains [of
      "[\<lparr>b_text = [66], b_size = 12, b_y0 = 88\<rparr>, \<lparr>b_text = [65], b_size = 12, b_y0 = 100\<rparr>,
        \<lparr>b_text = [67], b_size = 12, b_y0 = 94\<rparr>, \<lparr>b_text = [68], b_size = 12, b_y0 = 70\<rparr>]"
      Y_THRESHOLD "\<lparr>b_text = [65], b_size = 12, b_y0 = 100\<rparr>" "\<lparr>b_text = [67], b_size = 12, b_y0 = 94\<rparr>"
      "\<lparr>b_text = [66], b_size = 12, b_y0 = 88\<rparr>"]
  by simp

text \<open>
  Claim C2. \<open>is_heading\<close> holds exactly when the trimmed, lower-cased text has at least
  4 characters, the size is at least 12, the text is not made only of digits, white space,
  hyphen, en dash, period, parentheses and colon, and the text is none of "figure",
  "table", "appendix". "Figure" at size 20 and "12-34 (5)" at size 18 are not headings.
\<close>
theorem is_heading_iff:
  "(is_heading U text avg \<longleftrightarrow>
      (let t = py_lower U (py_strip text)
       in length t \<ge> 4 \<and> avg \<ge> 12
          \<and> \<not> list_all (\<lambda>c. py_isdecimal U c \<or> py_isspace c \<or> c \<in> {45, 8211, 46, 40, 41, 58}) t
          \<and> t \<notin> {ustr_of ''figure'', ustr_of ''table'', ustr_of ''appendix''}))
   \<and> \<not> is_heading U (ustr_of ''Figure'') 20
   \<and> \<not> is_heading U (ustr_of ''12-34 (5)'') 18"
proof -
  have cls: "numpunct_char U = (\<lambda>c. py_isdecimal U c \<or> py_isspace c \<or> c \<in> {45, 8211, 46, 40, 41, 58})"
    by (auto simp: numpunct_char_def fun_eq_iff)
  have "is_heading U text avg \<longleftrightarrow>
      (let t = py_lower U (py_strip text)
       in length t \<ge> 4 \<and> avg \<ge> 12
          \<and> \<not> list_all (\<lambda>c. py_isdecimal U c \<or> py_isspace c \<or> c \<in> {45, 8211, 46, 40, 41, 58}) t
          \<and> t \<notin> {ustr_of ''figure'', ustr_of ''table'', ustr_of ''appendix''})"
    unfolding is_heading_def re_match_numpunct_def cls H3_threshold MIN_TEXT_LENGTH_def
      EXCLUDED_HEADINGS_def Let_def
    by auto
  moreover have "\<not> is_heading U (ustr_of ''Figure'') 20"
    by (simp add: classifier_defs)
  moreover have "\<not> is_heading U (ustr_of ''12-34 (5)'') 18"
    by (simp add: classifier_defs)
  ultimately show ?thesis by blast
qed

theorem is_heading_iff_witness:
  "is_heading ascii_only_db (ustr_of ''1.1 Background'') 14
   \<and> \<not> is_heading ascii_only_db (ustr_of ''Figure'') 20
   \<and> \<not> is_heading ascii_only_db (ustr_of ''12-34 (5)'') 18"
proof -
  have "let t = py_lower ascii_only_db (py_strip (ustr_of ''1.1 Background''))
       in length t \<ge> 4 \<and> (14::real) \<ge> 12
          \<and> \<not> list_all (\<lambda>c. py_isdecimal ascii_only_db c \<or> py_isspace c \<or> c \<in> {45, 8211, 46, 40, 41, 58}) t
          \<and> t \<notin> {ustr_of ''figure'', ustr_of ''table'', ustr_of ''appendix''}"
    by (simp add: classifier_defs)
  with is_heading_iff [of ascii_only_db "ustr_of ''1.1 Background''" 14] show ?thesis
    by blast
qed

text \<open>
  Claim C4. The threshold table is consulted in the order 16, 14, 12, 10,
  \<open>get_heading_level\<close> returns the first level whose threshold is at most the size, and
  the level of a larger size never has a larger rank than the level of a smaller one.
\<close>
theorem get_heading_level_monotonic:
  "map snd FONT_THRESHOLDS = [16, 14, 12, 10]
   \<and> get_heading_level s =
       (if 16 \<le> s then Some ''H1'' else if 14 \<le> s then Some ''H2''
        else if 12 \<le> s then Some ''H3'' else if 10 \<le> s then Some ''H4'' else None)
   \<and> (s1 \<le> s2 \<and> get_heading_level s1 = Some l1 \<and> get_heading_level s2 = Some l2
      \<longrightarrow> (\<exists>r1 r2. level_rank l1 = Some r1 \<and> level_rank l2 = Some r2 \<and> r2 \<le> r1))"
proof -
  have "s1 \<le> s2 \<and> get_heading_level s1 = Some l1 \<and> get_heading_level s2 = Some l2
      \<longrightarrow> (\<exists>r1 r2. level_rank l1 = Some r1 \<and> level_rank l2 = Some r2 \<and> r2 \<le> r1)"
    by (auto simp: get_heading_level_cases level_rank_def split: if_splits)
  then show ?thesis
    by (simp add: get_heading_level_cases) (simp add: FONT_THRESHOLDS_def)
qed

theorem get_heading_level_monotonic_witness:
  "get_heading_level 13 = Some ''H3'' \<and> get_heading_level 15 = Some ''H2''
   \<and> (\<exists>r1 r2. level_rank ''H3'' = Some r1 \<and> level_rank ''H2'' = Some r2 \<and> r2 \<le> r1)"
proof -
  have a: "get_heading_level 13 = Some ''H3''" and b: "get_heading_level 15 = Some ''H2''"
    by (simp_all add: get_heading_level_def FONT_THRESHOLDS_def)
  with get_heading_level_monotonic [of 13 13 15 "''H3''" "''H2''"] show ?thesis
    by simp
qed

text \<open>
  Claim C9. For a text and size that \<open>is_heading\<close> accepts, \<open>get_heading_level\<close>
  finds a level: the branch that drops a heading without level is not reached.
\<close>
theorem heading_always_has_level:
  "is_heading U text avg \<Longrightarrow> get_heading_level avg \<noteq> None"
  by (simp add: is_heading_def H3_threshold Let_def get_heading_level_cases)

theorem heading_always_has_level_witness:
  "is_heading ascii_only_db (ustr_of ''1.1 Background'') 14 \<and> get_heading_level 14 \<noteq> None"
proof -
  have h: "is_heading ascii_only_db (ustr_of ''1.1 Background'') 14"
    by (simp add: classifier_defs)
  from h heading_always_has_level [OF h] show ?thesis by simp
qed

section \<open>The outline builder\<close>

text \<open>
  Claim C7. When the body of \<open>extract_pdfminer_outline\<close> raises, which it does when the
  layout collaborator fails, the function returns the degraded record, whose title is the
  file name and whose outline is empty, and raises nothing itself.
\<close>
theorem extraction_failure_degrades:
  "(extract_pages file_bytes = Inl e \<longrightarrow>
      extract_body U extract_pages file_bytes file_name max_pages = Inl e)
   \<and> (extract_body U extract_pages file_bytes file_name max_pages = Inl e \<longrightarrow>
      extract_pdfminer_outline U extract_pages file_bytes file_name max_pages
        = \<lparr>title = file_name, outline = []\<rparr>)"
  by (simp add: extract_pdfminer_outline_def extract_body_def)

theorem extraction_failure_degrades_witness:
  "extract_body ascii_only_db (\<lambda>u::unit. Inl ExtractionError) () (ustr_of ''broken.pdf'') MAX_PAGES
     = Inl ExtractionError
   \<and> extract_pdfminer_outline ascii_only_db (\<lambda>u::unit. Inl ExtractionError) () (ustr_of ''broken.pdf'') MAX_PAGES
     = \<lparr>title = ustr_of ''broken.pdf'', outline = []\<rparr>"
  using extraction_failure_degrades [of "\<lambda>u::unit. Inl ExtractionError" "()" ExtractionError
      ascii_only_db "ustr_of ''broken.pdf''" MAX_PAGES]
  by simp

text \<open>
  Claim C6. With \<open>MAX_PAGES\<close> at most 50 pages are processed, the page of every entry of
  the outline is between 1 and the smaller of the number of pages and \<open>MAX_PAGES\<close>, and
  the pages after the fiftieth do not change the result.
\<close>
theorem page_cap:
  assumes "extract_pages file_bytes = Inr pages"
  shows "length (py_slice_to pages MAX_PAGES) \<le> 50
   \<and> list_all (\<lambda>x. \<exists>p. map_of x ''page'' = Some (PInt p) \<and> 1 \<le> p
                       \<and> p \<le> min (int (length pages)) MAX_PAGES)
       (outline (extract_pdfminer_outline U extract_pages file_bytes file_name MAX_PAGES))
   \<and> extract_pdfminer_outline U extract_pages file_bytes file_name MAX_PAGES
       = extract_pdfminer_outline U (\<lambda>b. Inr (take 50 pages)) file_bytes file_name MAX_PAGES"
proof -
  let ?st = "process_pages U 0 (py_slice_to pages MAX_PAGES) initial_state"
  note ok = extract_ok [where extract_pages = extract_pages and file_bytes = file_bytes
      and pages = pages, OF assms]
  have ok50: "extract_pdfminer_outline U (\<lambda>b. Inr (take 50 pages)) file_bytes file_name MAX_PAGES =
     \<lparr>title = (case title_candidate (process_pages U 0 (py_slice_to (take 50 pages) MAX_PAGES) initial_state) of
                 Some t \<Rightarrow> if t \<noteq> [] then t else default_title U file_name
               | None \<Rightarrow> default_title U file_name),
      outline = map (py_pop ''y0'') (sort_key (\<lambda>x. the (sort_key_of x))
                  (outline_list (process_pages U 0 (py_slice_to (take 50 pages) MAX_PAGES) initial_state)))\<rparr>"
    by (rule extract_ok) simp
  have len: "int (length (py_slice_to pages MAX_PAGES)) = min (int (length pages)) MAX_PAGES"
    by (rule py_slice_to_length) (simp add: MAX_PAGES_def)
  have 1: "length (py_slice_to pages MAX_PAGES) \<le> 50"
    by (simp add: py_slice_to_MAX)
  have 2: "list_all (\<lambda>x. \<exists>p. map_of x ''page'' = Some (PInt p) \<and> 1 \<le> p
                       \<and> p \<le> min (int (length pages)) MAX_PAGES)
       (outline (extract_pdfminer_outline U extract_pages file_bytes file_name MAX_PAGES))"
    unfolding list_all_iff
  proof
    fix x
    assume "x \<in> set (outline (extract_pdfminer_outline U extract_pages file_bytes file_name MAX_PAGES))"
    then obtain x' where x': "x' \<in> set (outline_list ?st)" and x: "x = py_pop ''y0'' x'"
      by (auto simp: ok)
    from document_entries [OF x'] len obtain p where
      "map_of x' ''page'' = Some (PInt p)" "1 \<le> p" "p \<le> min (int (length pages)) MAX_PAGES"
      by auto
    then show "\<exists>p. map_of x ''page'' = Some (PInt p) \<and> 1 \<le> p \<and> p \<le> min (int (length pages)) MAX_PAGES"
      by (auto simp: x py_pop_other)
  qed
  have 3: "extract_pdfminer_outline U extract_pages file_bytes file_name MAX_PAGES
       = extract_pdfminer_outline U (\<lambda>b. Inr (take 50 pages)) file_bytes file_name MAX_PAGES"
    by (simp add: ok ok50 py_slice_to_MAX)
  from 1 2 3 show ?thesis by blast
qed

theorem page_cap_witness:
  "length (py_slice_to example_document MAX_PAGES) \<le> 50
   \<and> list_all (\<lambda>x. \<exists>p. map_of x ''page'' = Some (PInt p) \<and> 1 \<le> p
                       \<and> p \<le> min (int (length example_document)) MAX_PAGES)
       (outline (extract_pdfminer_outline ascii_only_db (\<lambda>u::unit. Inr example_document) ()
          (ustr_of ''my_doc.pdf'') MAX_PAGES))
   \<and> extract_pdfminer_outline ascii_only_db (\<lambda>u::unit. Inr example_document) () (ustr_of ''my_doc.pdf'') MAX_PAGES
       = extract_pdfminer_outline ascii_only_db (\<lambda>b. Inr (take 50 example_document)) () (ustr_of ''my_doc.pdf'') MAX_PAGES"
  by (rule page_cap) simp

text \<open>
  Claim C5. In the output record the entries are the collected entries sorted by page
  ascending and, within a page, by the smallest \<open>y0\<close> of the group descending: an entry
  of a smaller page precedes every entry of a larger page, and of two entries of one
  page the earlier has the larger or equal \<open>y0\<close>. After the sort the key \<open>y0\<close> is removed,
  so the keys of every entry of the output are exactly \<open>level\<close>, \<open>text\<close> and \<open>page\<close>.
\<close>
theorem outline_sorted_and_stripped:
  assumes "extract_pages file_bytes = Inr pages"
  shows "let collected = outline_list (process_pages U 0 (py_slice_to pages max_pages) initial_state);
             sorted_outline = sort_key (\<lambda>x. the (sort_key_of x)) collected;
             result = extract_pdfminer_outline U extract_pages file_bytes file_name max_pages
         in mset sorted_outline = mset collected
          \<and> sorted_wrt (\<lambda>a b. \<exists>pa ya pb yb. sort_key_of a = Some (pa, - ya)
                  \<and> sort_key_of b = Some (pb, - yb) \<and> (pa < pb \<or> (pa = pb \<and> ya \<ge> yb)))
               sorted_outline
          \<and> (\<forall>i j. i < length sorted_outline \<and> j < length sorted_outline
                \<and> fst (the (sort_key_of (sorted_outline ! i))) < fst (the (sort_key_of (sorted_outline ! j)))
                \<longrightarrow> i < j)
          \<and> outline result = map (py_pop ''y0'') sorted_outline
          \<and> list_all (\<lambda>x. map fst x = [''level'', ''text'', ''page'']) (outline result)"
proof -
  define collected where
    "collected = outline_list (process_pages U 0 (py_slice_to pages max_pages) initial_state)"
  define so where "so = sort_key (\<lambda>x. the (sort_key_of x)) collected"
  note ok = extract_ok [where extract_pages = extract_pages and file_bytes = file_bytes
      and pages = pages, OF assms]
  have entries: "\<And>x. x \<in> set so \<Longrightarrow> map fst x = [''level'', ''text'', ''page'', ''y0'']
     \<and> (\<exists>p y. sort_key_of x = Some (p, - y))"
    using document_entries [of _ U "py_slice_to pages max_pages"]
    unfolding so_def collected_def by fastforce
  have perm: "mset so = mset collected" by (simp add: so_def)
  have srt: "sorted_wrt (\<lambda>a b. the (sort_key_of a) \<le> the (sort_key_of b)) so"
    using sorted_sort_key [of "\<lambda>x. the (sort_key_of x)" collected]
    by (simp add: so_def sorted_map)
  have order: "sorted_wrt (\<lambda>a b. \<exists>pa ya pb yb. sort_key_of a = Some (pa, - ya)
                  \<and> sort_key_of b = Some (pb, - yb) \<and> (pa < pb \<or> (pa = pb \<and> ya \<ge> yb))) so"
  proof (rule sorted_wrt_mono_rel [OF _ srt])
    fix a b
    assume a: "a \<in> set so" and b: "b \<in> set so"
      and le: "the (sort_key_of a) \<le> the (sort_key_of b)"
    from entries [OF a] obtain pa ya where ka: "sort_key_of a = Some (pa, - ya)" by blast
    from entries [OF b] obtain pb yb where kb: "sort_key_of b = Some (pb, - yb)" by blast
    from le ka kb have "pa < pb \<or> (pa = pb \<and> ya \<ge> yb)" by auto
    with ka kb show "\<exists>pa ya pb yb. sort_key_of a = Some (pa, - ya)
        \<and> sort_key_of b = Some (pb, - yb) \<and> (pa < pb \<or> (pa = pb \<and> ya \<ge> yb))"
      by blast
  qed
  have pages_first: "\<forall>i j. i < length so \<and> j < length so
                \<and> fst (the (sort_key_of (so ! i))) < fst (the (sort_key_of (so ! j)))
                \<longrightarrow> i < j"
  proof (intro allI impI, elim conjE)
    fix i j
    assume i: "i < length so" and j: "j < length so"
      and lt: "fst (the (sort_key_of (so ! i))) < fst (the (sort_key_of (so ! j)))"
    show "i < j"
    proof (rule ccontr)
      assume "\<not> i < j"
      then consider "j = i" | "j < i" by linarith
      then show False
      proof cases
        case 1
        with lt show False by simp
      next
        case 2
        from srt 2 i have "the (sort_key_of (so ! j)) \<le> the (sort_key_of (so ! i))"
          by (simp add: sorted_wrt_iff_nth_less)
        then have "fst (the (sort_key_of (so ! j))) \<le> fst (the (sort_key_of (so ! i)))"
          by (auto simp: less_eq_prod_def)
        with lt show False by simp
      qed
    qed
  qed
  have stripped: "outline (extract_pdfminer_outline U extract_pages file_bytes file_name max_pages)
      = map (py_pop ''y0'') so"
    by (simp add: ok so_def collected_def)
  have keys: "list_all (\<lambda>x. map fst x = [''level'', ''text'', ''page''])
      (outline (extract_pdfminer_outline U extract_pages file_bytes file_name max_pages))"
    unfolding stripped list_all_iff
  proof
    fix x assume "x \<in> set (map (py_pop ''y0'') so)"
    then obtain x' where "x' \<in> set so" "x = py_pop ''y0'' x'" by auto
    with entries [of x'] show "map fst x = [''level'', ''text'', ''page'']"
      by (simp add: py_pop_keys)
  qed
  from perm order pages_first stripped keys show ?thesis
    unfolding Let_def so_def [symmetric] collected_def [symmetric] by blast
qed

theorem outline_sorted_and_stripped_witness:
  "outline (extract_pdfminer_outline ascii_only_db (\<lambda>u::unit. Inr example_document) ()
       (ustr_of ''my_doc.pdf'') MAX_PAGES)
   = map (py_pop ''y0'') (sort_key (\<lambda>x. the (sort_key_of x))
       (outline_list (process_pages ascii_only_db 0 (py_slice_to example_document MAX_PAGES) initial_state)))
   \<and> outline (extract_pdfminer_outline ascii_only_db (\<lambda>u::unit. Inr example_document) ()
       (ustr_of ''my_doc.pdf'') MAX_PAGES)
   = [[(''level'', PStr (ustr_of ''H1'')), (''text'', PStr (ustr_of ''1 Introduction'')), (''page'', PInt 1)],
      [(''level'', PStr (ustr_of ''H1'')), (''text'', PStr (ustr_of ''2 Methods'')), (''page'', PInt 2)],
      [(''level'', PStr (ustr_of ''H2'')), (''text'', PStr (ustr_of ''2.1 Setup'')), (''page'', PInt 2)]]"
proof -
  have h: "(\<lambda>u::unit. Inr example_document) () = (Inr example_document :: exn + page list)" by simp
  from outline_sorted_and_stripped [where extract_pages = "\<lambda>u::unit. Inr example_document"
      and file_bytes = "()" and pages = example_document and U = ascii_only_db
      and file_name = "ustr_of ''my_doc.pdf''" and max_pages = MAX_PAGES, OF h]
  have "outline (extract_pdfminer_outline ascii_only_db (\<lambda>u::unit. Inr example_document) ()
       (ustr_of ''my_doc.pdf'') MAX_PAGES)
   = map (py_pop ''y0'') (sort_key (\<lambda>x. the (sort_key_of x))
       (outline_list (process_pages ascii_only_db 0 (py_slice_to example_document MAX_PAGES) initial_state)))"
    unfolding Let_def by blast
  moreover have "outline (extract_pdfminer_outline ascii_only_db (\<lambda>u::unit. Inr example_document) ()
       (ustr_of ''my_doc.pdf'') MAX_PAGES)
   = [[(''level'', PStr (ustr_of ''H1'')), (''text'', PStr (ustr_of ''1 Introduction'')), (''page'', PInt 1)],
      [(''level'', PStr (ustr_of ''H1'')), (''text'', PStr (ustr_of ''2 Methods'')), (''page'', PInt 2)],
      [(''level'', PStr (ustr_of ''H2'')), (''text'', PStr (ustr_of ''2.1 Setup'')), (''page'', PInt 2)]]"
    by (simp add: eval_defs)
  ultimately show ?thesis by blast
qed

text \<open>
  Claim C1, as the specification states it, fails: on the first page of
  \<open>late_title_document\<close> the first group, the text \<open>ab\<close>, fails the title test, and yet
  the second group is evaluated as a title candidate. It becomes the title and is kept
  out of the outline, where heading classification alone would have put it as an
  \<open>H1\<close> entry.
\<close>
theorem title_check_repeats_after_failure:
  "group_boxes_by_y (page_boxes late_title_page) Y_THRESHOLD =
     [[\<lparr>b_text = ustr_of ''ab'', b_size = 20, b_y0 = 700\<rparr>],
      [\<lparr>b_text = ustr_of ''Real Title'', b_size = 18, b_y0 = 600\<rparr>],
      [\<lparr>b_text = ustr_of ''1 Introduction'', b_size = 16, b_y0 = 500\<rparr>]]
   \<and> \<not> title_check ascii_only_db [\<lparr>b_text = ustr_of ''ab'', b_size = 20, b_y0 = 700\<rparr>]
   \<and> heading_entries ascii_only_db 0 [\<lparr>b_text = ustr_of ''Real Title'', b_size = 18, b_y0 = 600\<rparr>]
       = [[(''level'', PStr (ustr_of ''H1'')), (''text'', PStr (ustr_of ''Real Title'')),
           (''page'', PInt 1), (''y0'', PFloat 600)]]
   \<and> extract_pdfminer_outline ascii_only_db Inr late_title_document (ustr_of ''doc.pdf'') MAX_PAGES
       = \<lparr>title = ustr_of ''Real Title'',
          outline =
            [[(''level'', PStr (ustr_of ''H1'')), (''text'', PStr (ustr_of ''1 Introduction'')),
              (''page'', PInt 1)],
             [(''level'', PStr (ustr_of ''H1'')), (''text'', PStr (ustr_of ''2 Methods'')),
              (''page'', PInt 2)]]\<rparr>"
  by (simp add: eval_defs late_title_defs)

text \<open>
  Claim C1, amended. On page 1 the title check is applied to the groups in order until the
  first group that passes it. That group becomes the title candidate and is not
  classified as a heading; the groups before it, which failed the check, and all groups
  after it go through heading classification only. When no group of page 1 passes, every
  group of page 1 goes through heading classification only and no candidate is set. In
  both cases no group of a later page is evaluated as a title candidate: the later pages
  contribute their heading entries and nothing else.
\<close>
theorem title_check_until_first_pass:
  "((\<forall>g\<in>set (group_boxes_by_y (page_boxes layout) Y_THRESHOLD). \<not> title_check U g) \<longrightarrow>
      process_pages U 0 (layout # later) initial_state =
        \<lparr>outline_list = page_entries U 0 layout @
            concat (map (\<lambda>(i, l). page_entries U i l) (zip [1 ..< 1 + length later] later)),
         title_candidate = None, largest_size = 0, is_first_text = True\<rparr>)
   \<and> (group_boxes_by_y (page_boxes layout) Y_THRESHOLD = pre @ g # rest
        \<and> (\<forall>p\<in>set pre. \<not> title_check U p) \<and> title_check U g \<longrightarrow>
      process_pages U 0 (layout # later) initial_state =
        \<lparr>outline_list = concat (map (heading_entries U 0) pre)
            @ concat (map (heading_entries U 0) rest)
            @ concat (map (\<lambda>(i, l). page_entries U i l) (zip [1 ..< 1 + length later] later)),
         title_candidate = Some (merged_text g), largest_size = avg_size g,
         is_first_text = False\<rparr>)"
proof (intro conjI impI)
  assume none: "\<forall>g\<in>set (group_boxes_by_y (page_boxes layout) Y_THRESHOLD). \<not> title_check U g"
  have first: "process_page U 0 layout initial_state
      = initial_state\<lparr>outline_list := outline_list initial_state @ page_entries U 0 layout\<rparr>"
    unfolding process_page_def page_entries_def using none by (rule fold_no_title)
  have "process_pages U 0 (layout # later) initial_state
      = process_pages U (Suc 0) later (process_page U 0 layout initial_state)"
    by simp
  also have "\<dots> = (process_page U 0 layout initial_state)
      \<lparr>outline_list := outline_list (process_page U 0 layout initial_state) @
           concat (map (\<lambda>(i, l). page_entries U i l) (zip [Suc 0 ..< Suc 0 + length later] later))\<rparr>"
    by (rule process_pages_later_entries) simp
  finally have eq: "process_pages U 0 (layout # later) initial_state
      = (process_page U 0 layout initial_state)
      \<lparr>outline_list := outline_list (process_page U 0 layout initial_state) @
           concat (map (\<lambda>(i, l). page_entries U i l) (zip [Suc 0 ..< Suc 0 + length later] later))\<rparr>" .
  show "process_pages U 0 (layout # later) initial_state =
        \<lparr>outline_list = page_entries U 0 layout @
            concat (map (\<lambda>(i, l). page_entries U i l) (zip [1 ..< 1 + length later] later)),
         title_candidate = None, largest_size = 0, is_first_text = True\<rparr>"
    unfolding eq first by (simp add: initial_state_def)
next
  assume h: "group_boxes_by_y (page_boxes layout) Y_THRESHOLD = pre @ g # rest
        \<and> (\<forall>p\<in>set pre. \<not> title_check U p) \<and> title_check U g"
  have i1: "is_first_text initial_state" and i2: "largest_size initial_state = 0"
    by (simp_all add: initial_state_def)
  from h have pre: "\<forall>p\<in>set pre. \<not> title_check U p" and g: "title_check U g" by simp_all
  have first: "process_page U 0 layout initial_state =
       initial_state\<lparr>outline_list := outline_list initial_state @ concat (map (heading_entries U 0) pre)
                  @ concat (map (heading_entries U 0) rest),
          title_candidate := Some (merged_text g), largest_size := avg_size g,
          is_first_text := False\<rparr>"
    unfolding process_page_def using h fold_first_page [OF i1 i2 pre g] by simp
  have "process_pages U 0 (layout # later) initial_state
      = process_pages U (Suc 0) later (process_page U 0 layout initial_state)"
    by simp
  also have "\<dots> = (process_page U 0 layout initial_state)
      \<lparr>outline_list := outline_list (process_page U 0 layout initial_state) @
           concat (map (\<lambda>(i, l). page_entries U i l) (zip [Suc 0 ..< Suc 0 + length later] later))\<rparr>"
    by (rule process_pages_later_entries) simp
  finally have eq: "process_pages U 0 (layout # later) initial_state
      = (process_page U 0 layout initial_state)
      \<lparr>outline_list := outline_list (process_page U 0 layout initial_state) @
           concat (map (\<lambda>(i, l). page_entries U i l) (zip [Suc 0 ..< Suc 0 + length later] later))\<rparr>" .
  show "process_pages U 0 (layout # later) initial_state =
        \<lparr>outline_list = concat (map (heading_entries U 0) pre)
            @ concat (map (heading_entries U 0) rest)
            @ concat (map (\<lambda>(i, l). page_entries U i l) (zip [1 ..< 1 + length later] later)),
         title_candidate = Some (merged_text g), largest_size = avg_size g,
         is_first_text = False\<rparr>"
    unfolding eq first by (simp add: initial_state_def)
qed

theorem title_check_until_first_pass_witness:
  "process_pages ascii_only_db 0 (late_title_page # [[text_container ''2 Methods'' 16 700]])
       initial_state =
     \<lparr>outline_list =
        [[(''level'', PStr (ustr_of ''H1'')), (''text'', PStr (ustr_of ''1 Introduction'')),
          (''page'', PInt 1), (''y0'', PFloat 500)],
         [(''level'', PStr (ustr_of ''H1'')), (''text'', PStr (ustr_of ''2 Methods'')),
          (''page'', PInt 2), (''y0'', PFloat 700)]],
      title_candidate = Some (ustr_of ''Real Title''), largest_size = 18,
      is_first_text = False\<rparr>"
proof -
  let ?b1 = "\<lparr>b_text = ustr_of ''ab'', b_size = 20, b_y0 = 700\<rparr>"
  let ?b2 = "\<lparr>b_text = ustr_of ''Real Title'', b_size = 18, b_y0 = 600\<rparr>"
  let ?b3 = "\<lparr>b_text = ustr_of ''1 Introduction'', b_size = 16, b_y0 = 500\<rparr>"
  have hyp: "group_boxes_by_y (page_boxes late_title_page) Y_THRESHOLD = [[?b1]] @ [?b2] # [[?b3]]
      \<and> (\<forall>p\<in>set [[?b1]]. \<not> title_check ascii_only_db p) \<and> title_check ascii_only_db [?b2]"
    by (simp add: eval_defs late_title_defs)
  from title_check_until_first_pass [where U = ascii_only_db and layout = late_title_page
      and later = "[[text_container ''2 Methods'' 16 700]]" and pre = "[[?b1]]" and g = "[?b2]"
      and rest = "[[?b3]]", THEN conjunct2, rule_format, OF hyp]
  show ?thesis by (simp add: eval_defs late_title_defs)
qed

text \<open>
  Claim C8 at the file name \<open>my.pdf_notes.pdf\<close> and a document of one page without text,
  so that no title candidate is set. The function removes every occurrence of \<open>.pdf\<close>
  from the name and returns the title \<open>My Notes\<close>; stripping the extension, replacing
  underscores and title-casing gives \<open>My.Pdf Notes\<close>.
\<close>
theorem default_title_removes_every_pdf:
  "extract_pdfminer_outline ascii_only_db Inr [[LTOther]] (ustr_of ''my.pdf_notes.pdf'') MAX_PAGES
     = \<lparr>title = ustr_of ''My Notes'', outline = []\<rparr>
   \<and> default_title_spec ascii_only_db (ustr_of ''my.pdf_notes.pdf'') = ustr_of ''My.Pdf Notes''"
  by (simp add: eval_defs default_title_spec_def strip_extension_def)

end
